theory Spec2Isabelle
  imports Main "HOL-Library.Sublist" "HOL-Library.Multiset"
begin

section \<open>Feed validation: the retry loop, the classification and the dispatcher\<close>

text \<open>
  A shallow embedding of \<^verbatim>\<open>validate_feeds.go\<close>. Instants and durations are natural numbers
  of nanoseconds, as Go's \<^verbatim>\<open>time.Duration\<close> counts them; an instant counts from Go's zero
  \<^verbatim>\<open>time.Time\<close> (1 January of year 1, UTC), so that the zero value of a \<^verbatim>\<open>time.Time\<close> field
  is \<open>0\<close>. Strings are byte strings. What the program takes from the outside (the network,
  the URL parser of \<^verbatim>\<open>net/http\<close>, the feed parser, the calendar) is a field of the record
  \<open>world\<close>.
\<close>

subsection \<open>Constants and data\<close>

definition concurrencyLimit :: nat where
  "concurrencyLimit = 60"

definition timeoutSeconds :: nat where
  "timeoutSeconds = 30"

definition maxRetries :: nat where
  "maxRetries = 3"

text \<open>\<^verbatim>\<open>time.Second\<close>, in nanoseconds.\<close>

definition Second :: nat where
  "Second = 1000000000"

record ValidationResult =
  URL :: string
  Status :: string
  Message :: string
  ItemCount :: int
  LastUpdate :: nat

text \<open>
  A composite literal \<^verbatim>\<open>ValidationResult{URL: u, Status: s, Message: m}\<close>: the fields it
  does not name hold their zero values.
\<close>

definition mkResult :: "string \<Rightarrow> string \<Rightarrow> string \<Rightarrow> ValidationResult" where
  "mkResult u s m = \<lparr>URL = u, Status = s, Message = m, ItemCount = 0, LastUpdate = 0\<rparr>"

text \<open>The part of \<^verbatim>\<open>gofeed.Feed\<close> and \<^verbatim>\<open>gofeed.Item\<close> that the program reads.\<close>

record Item =
  PublishedParsed :: "nat option"

record Feed =
  UpdatedParsed :: "nat option"
  Items :: "Item list"

text \<open>
  An HTTP response: its status code and what \<^verbatim>\<open>io.ReadAll\<close> makes of its body, the text
  of the read error (\<open>Inl\<close>) or the bytes (\<open>Inr\<close>).
\<close>

record Response =
  StatusCode :: int
  Body :: "string + string"

text \<open>
  What one call of \<^verbatim>\<open>client.Do\<close> meets when no deadline cuts it short: after \<open>latency\<close>
  nanoseconds the call returns \<open>outcome\<close>, the text of a transport error (\<open>Inl\<close>) or a
  response (\<open>Inr\<close>).
\<close>

record attempt =
  latency :: nat
  outcome :: "string + Response"

text \<open>
  The outside world. \<open>NewRequest u\<close> is the error text of
  \<^verbatim>\<open>http.NewRequestWithContext\<close> on \<open>u\<close>, if it fails; \<open>network u k\<close> is what the \<open>k\<close>-th
  request to \<open>u\<close> meets; \<open>Parse\<close> is \<^verbatim>\<open>parser.Parse\<close>, the error text or the feed;
  \<open>sixMonthsBefore t\<close> is the instant \<^verbatim>\<open>t.AddDate(0, -6, 0)\<close>.
\<close>

record world =
  NewRequest :: "string \<Rightarrow> string option"
  network :: "string \<Rightarrow> nat \<Rightarrow> attempt"
  Parse :: "string \<Rightarrow> string + Feed"
  sixMonthsBefore :: "nat \<Rightarrow> nat"

subsection \<open>Strings\<close>

text \<open>
  \<^verbatim>\<open>strings.TrimSpace\<close> removes the leading and the trailing white space that Unicode
  defines, on a string of bytes in UTF-8. The white space of one byte is tab, line feed,
  vertical tab, form feed, carriage return and space; of two bytes, U+0085 and U+00A0; of
  three bytes, U+1680, U+2000 to U+200A, U+2028, U+2029, U+202F, U+205F and U+3000.
\<close>

definition asciiSpace :: "char \<Rightarrow> bool" where
  "asciiSpace c = (c = CHR 0x09 \<or> c = CHR 0x0A \<or> c = CHR 0x0B \<or> c = CHR 0x0C \<or> c = CHR 0x0D
     \<or> c = CHR 0x20)"

definition space2 :: "char \<Rightarrow> char \<Rightarrow> bool" where
  "space2 a b = (a = CHR 0xC2 \<and> (b = CHR 0x85 \<or> b = CHR 0xA0))"

definition space3 :: "char \<Rightarrow> char \<Rightarrow> char \<Rightarrow> bool" where
  "space3 a b c =
     (a = CHR 0xE1 \<and> b = CHR 0x9A \<and> c = CHR 0x80
      \<or> a = CHR 0xE2 \<and> b = CHR 0x80
          \<and> ((0x80 :: nat) \<le> of_char c \<and> of_char c \<le> (0x8A :: nat)
               \<or> c = CHR 0xA8 \<or> c = CHR 0xA9 \<or> c = CHR 0xAF)
      \<or> a = CHR 0xE2 \<and> b = CHR 0x81 \<and> c = CHR 0x9F
      \<or> a = CHR 0xE3 \<and> b = CHR 0x80 \<and> c = CHR 0x80)"

text \<open>The string without its leading white space.\<close>

fun trimLeft :: "string \<Rightarrow> string" where
  "trimLeft [] = []"
| "trimLeft (a # s) =
     (if asciiSpace a then trimLeft s
      else
        (case s of
           [] \<Rightarrow> a # s
         | b # s1 \<Rightarrow>
             if space2 a b then trimLeft s1
             else
               (case s1 of
                  [] \<Rightarrow> a # s
                | c # s2 \<Rightarrow> if space3 a b c then trimLeft s2 else a # s)))"

text \<open>
  The same from the other end, on the reversed string: the bytes of a character come last
  byte first.
\<close>

fun trimRightRev :: "string \<Rightarrow> string" where
  "trimRightRev [] = []"
| "trimRightRev (a # s) =
     (if asciiSpace a then trimRightRev s
      else
        (case s of
           [] \<Rightarrow> a # s
         | b # s1 \<Rightarrow>
             if space2 b a then trimRightRev s1
             else
               (case s1 of
                  [] \<Rightarrow> a # s
                | c # s2 \<Rightarrow> if space3 c b a then trimRightRev s2 else a # s)))"

definition TrimSpace :: "string \<Rightarrow> string" where
  "TrimSpace s = rev (trimRightRev (rev (trimLeft s)))"

text \<open>\<^verbatim>\<open>strings.Contains s sub\<close>.\<close>

fun Contains :: "string \<Rightarrow> string \<Rightarrow> bool" where
  "Contains [] sub = (sub = [])"
| "Contains (c # cs) sub = (prefix sub (c # cs) \<or> Contains cs sub)"

text \<open>\<^verbatim>\<open>fmt.Sprintf("%d", n)\<close>: the decimal digits, with a sign for a negative number.\<close>

definition digit :: "nat \<Rightarrow> char" where
  "digit n = char_of (48 + n)"

fun utoa :: "nat \<Rightarrow> string" where
  "utoa n = (if n < 10 then [digit n] else utoa (n div 10) @ [digit (n mod 10)])"

declare utoa.simps [simp del]

definition itoa :: "int \<Rightarrow> string" where
  "itoa i = (if i < 0 then CHR ''-'' # utoa (nat (- i)) else utoa (nat i))"

subsection \<open>One request\<close>

text \<open>
  The text of the \<^verbatim>\<open>*url.Error\<close> that \<^verbatim>\<open>client.Do\<close> returns for a GET request: the method, the
  URL between double quotes and the text of the cause (the escapes that Go's \<^verbatim>\<open>%q\<close> adds
  inside the quotes are left out). The cause of a request whose context's deadline has passed
  is \<^verbatim>\<open>context.DeadlineExceeded\<close>.
\<close>

definition urlError :: "string \<Rightarrow> string \<Rightarrow> string" where
  "urlError u cause = ''Get '' @ [CHR 0x22] @ u @ [CHR 0x22] @ '': '' @ cause"

definition deadlineExceeded :: "string \<Rightarrow> string" where
  "deadlineExceeded u = urlError u ''context deadline exceeded''"

text \<open>
  \<^verbatim>\<open>client.Do(req)\<close> at the instant \<open>now\<close>, for a request whose context expires at
  \<open>deadline\<close>: the answer of the network if it comes before the deadline, the deadline's
  error otherwise (at once when the deadline has passed already). The instant at which the
  call returns comes first.
\<close>

definition client_Do :: "world \<Rightarrow> string \<Rightarrow> nat \<Rightarrow> nat \<Rightarrow> nat \<Rightarrow> nat \<times> (string + Response)" where
  "client_Do w u deadline k now =
     (let a = network w u k in
      if now + latency a < deadline then (now + latency a, outcome a)
      else (max now deadline, Inl (deadlineExceeded u)))"

subsection \<open>The retry loop\<close>

text \<open>
  What a run of \<^verbatim>\<open>validateFeed\<close> does, in order: a request (its attempt number, the instant
  it starts and the deadline of its context), a backoff sleep (its duration), the read of
  the body, the call of the feed parser.
\<close>

datatype event = Fetch nat nat nat | Sleep nat | ReadAll | ParseFeed

text \<open>The durations of the backoff sleeps among some events, in order.\<close>

fun sleeps :: "event list \<Rightarrow> nat list" where
  "sleeps [] = []"
| "sleeps (Sleep d # es) = d # sleeps es"
| "sleeps (e # es) = sleeps es"

text \<open>
  The loop ends by returning from \<^verbatim>\<open>validateFeed\<close> (\<open>Return\<close>) or by leaving the loop with
  the variables \<^verbatim>\<open>resp\<close> and \<^verbatim>\<open>err\<close> (\<open>Break\<close>; \<open>None\<close> is \<^verbatim>\<open>nil\<close>, and \<^verbatim>\<open>err\<close> is kept as its
  text).
\<close>

datatype loop_exit = Return ValidationResult | Break "Response option" "string option"

text \<open>
  The \<^verbatim>\<open>for\<close> loop of \<^verbatim>\<open>validateFeed\<close>, from the state \<open>(attempt, backoff, resp, err)\<close> at the
  instant \<open>now\<close>, with the events so far in \<open>tr\<close>. It returns how the loop ends, the instant
  at which it ends and the events.
\<close>

function retry_loop ::
  "world \<Rightarrow> string \<Rightarrow> nat \<Rightarrow> nat \<Rightarrow> nat \<Rightarrow> nat \<Rightarrow> Response option \<Rightarrow> string option
     \<Rightarrow> event list \<Rightarrow> loop_exit \<times> nat \<times> event list" where
  "retry_loop w u deadline attempt backoff now resp err tr =
     (if attempt \<le> maxRetries then
        (let tr1 = tr @ [Fetch attempt now deadline] in
         case client_Do w u deadline attempt now of
           (now1, Inl e) \<Rightarrow>
             if attempt = maxRetries then (Break None (Some e), now1, tr1)
             else retry_loop w u deadline (attempt + 1) (backoff * 2) (now1 + backoff * Second)
                    None (Some e) (tr1 @ [Sleep (backoff * Second)])
         | (now1, Inr r) \<Rightarrow>
             if StatusCode r \<noteq> 200 then
               if 400 \<le> StatusCode r \<and> StatusCode r < 500 \<and> StatusCode r \<noteq> 429
               then (Return (mkResult u ''invalid'' (''HTTP status '' @ itoa (StatusCode r))),
                     now1, tr1)
               else if attempt = maxRetries then (Break (Some r) None, now1, tr1)
               else retry_loop w u deadline (attempt + 1) (backoff * 2)
                      (now1 + backoff * Second) (Some r) None (tr1 @ [Sleep (backoff * Second)])
             else (Break (Some r) None, now1, tr1))
      else (Break resp err, now, tr))"
  by pat_completeness auto
termination
  by (relation "measure (\<lambda>(w, u, deadline, attempt, rest). maxRetries + 1 - attempt)") auto

declare retry_loop.simps [simp del]

subsection \<open>The classification of a decoded feed\<close>

text \<open>
  The end of \<^verbatim>\<open>validateFeed\<close>, from the decoded feed on: the item count, the last update
  (the feed's own, else the first item's, else the zero value) and the warnings. \<open>now\<close> is
  what \<^verbatim>\<open>time.Now()\<close> returns there.
\<close>

definition lastUpdateOf :: "Feed \<Rightarrow> nat" where
  "lastUpdateOf feed =
     (case UpdatedParsed feed of
        Some t \<Rightarrow> t
      | None \<Rightarrow>
          (case Items feed of
             [] \<Rightarrow> 0
           | it # _ \<Rightarrow> (case PublishedParsed it of Some t \<Rightarrow> t | None \<Rightarrow> 0)))"

definition classify :: "world \<Rightarrow> string \<Rightarrow> nat \<Rightarrow> Feed \<Rightarrow> ValidationResult" where
  "classify w u now feed =
     (let result = \<lparr>URL = u, Status = ''valid'', Message = [],
                    ItemCount = int (length (Items feed)), LastUpdate = lastUpdateOf feed\<rparr>
      in if length (Items feed) = 0 then result\<lparr>Message := ''Warning: No feed items''\<rparr>
         else if LastUpdate result < sixMonthsBefore w now
         then result\<lparr>Message := ''Warning: Feed hasn't been updated in over 6 months''\<rparr>
         else result)"

subsection \<open>validateFeed\<close>

text \<open>
  The result for a loop that ends with no transport error and no response of status 200;
  \<open>statusCode\<close> is the last response's, or 0 when \<^verbatim>\<open>resp\<close> is \<^verbatim>\<open>nil\<close>.
\<close>

definition failedAfter :: "string \<Rightarrow> int \<Rightarrow> ValidationResult" where
  "failedAfter u statusCode =
     mkResult u ''transient''
       (''Failed after '' @ itoa (int maxRetries) @ '' attempts, last status: ''
          @ itoa statusCode)"

text \<open>
  What follows the loop when it is left by \<^verbatim>\<open>break\<close>: the transport error, the status that
  is not 200, the read of the body, the parser. Reading and parsing take no time here, so
  \<^verbatim>\<open>time.Now()\<close> in the classification is the instant at which the loop ended.
\<close>

definition after_loop ::
  "world \<Rightarrow> string \<Rightarrow> Response option \<Rightarrow> string option \<Rightarrow> nat \<Rightarrow> event list
     \<Rightarrow> ValidationResult \<times> nat \<times> event list" where
  "after_loop w u resp err now tr =
     (case err of
        Some e \<Rightarrow>
          if Contains e ''context canceled'' \<or> Contains e ''context deadline exceeded''
          then (mkResult u ''transient''
                  (''Request timed out after '' @ itoa (int timeoutSeconds) @ '' seconds''),
                now, tr)
          else (mkResult u ''transient'' e, now, tr)
      | None \<Rightarrow>
          (case resp of
             None \<Rightarrow> (failedAfter u 0, now, tr)
           | Some r \<Rightarrow>
               if StatusCode r \<noteq> 200 then (failedAfter u (StatusCode r), now, tr)
               else
                 (case Body r of
                    Inl e \<Rightarrow>
                      (mkResult u ''transient'' (''Error reading response: '' @ e),
                       now, tr @ [ReadAll])
                  | Inr bodyBytes \<Rightarrow>
                      (case Parse w bodyBytes of
                         Inl parseErr \<Rightarrow>
                           if Contains parseErr ''EOF'' \<or> Contains parseErr ''no XML''
                           then (mkResult u ''invalid'' ''Not a valid feed format'',
                                 now, tr @ [ReadAll, ParseFeed])
                           else (mkResult u ''invalid'' parseErr,
                                 now, tr @ [ReadAll, ParseFeed])
                       | Inr feed \<Rightarrow>
                           (classify w u now feed, now, tr @ [ReadAll, ParseFeed])))))"

text \<open>
  \<^verbatim>\<open>validateFeed\<close> called at the instant \<open>t0\<close>: the result, the instant at which it returns
  and its events. The context is made once, before the loop, and expires at
  \<open>t0 + timeoutSeconds * Second\<close>.
\<close>

definition validateFeed :: "world \<Rightarrow> string \<Rightarrow> nat \<Rightarrow> ValidationResult \<times> nat \<times> event list" where
  "validateFeed w url0 t0 =
     (let url = TrimSpace url0;
          deadline = t0 + timeoutSeconds * Second
      in case NewRequest w url of
           Some reqErr \<Rightarrow> (mkResult url ''invalid'' (''Invalid URL: '' @ reqErr), t0, [])
         | None \<Rightarrow>
             (case retry_loop w url deadline 1 1 t0 None None [] of
                (Return r, now, tr) \<Rightarrow> (r, now, tr)
              | (Break resp err, now, tr) \<Rightarrow> after_loop w url resp err now tr))"

subsection \<open>The dispatcher\<close>

text \<open>
  The second half of \<^verbatim>\<open>main\<close>: one goroutine for each URL, admitted by a weighted semaphore,
  each sending its result on \<^verbatim>\<open>resultsChan\<close>; then the results are collected and counted.

  \<^verbatim>\<open>sem.Acquire(ctx, 1)\<close> on a semaphore of size \<open>n\<close> of which \<open>cur\<close> is held: the
  error of a context that is done (\<open>Inl\<close>), success (\<open>Inr\<close>), or \<open>None\<close> while the caller has
  to wait. \<^verbatim>\<open>context.Background()\<close> is never done.
\<close>

datatype Context = Background | Done string

fun ctx_Err :: "Context \<Rightarrow> string option" where
  "ctx_Err Background = None"
| "ctx_Err (Done e) = Some e"

definition sem_Acquire :: "Context \<Rightarrow> nat \<Rightarrow> nat \<Rightarrow> (string + unit) option" where
  "sem_Acquire ctx n cur =
     (case ctx_Err ctx of
        Some e \<Rightarrow> Some (Inl e)
      | None \<Rightarrow> if cur + 1 \<le> n then Some (Inr ()) else None)"

text \<open>
  The state of the dispatcher: the wall clock, the URLs the \<^verbatim>\<open>for\<close> loop has not reached
  yet, the goroutines in flight (for each one the instant at which its \<^verbatim>\<open>validateFeed\<close>
  returns, and the result), and the results sent on the channel so far, in order. A
  goroutine holds one unit of the semaphore and of the wait group from its creation until
  it ends, so both count \<open>length (running s)\<close>. The channel is buffered for one result for
  each URL, so a send never waits.
\<close>

record dispatcher =
  clock :: nat
  pending :: "string list"
  running :: "(nat \<times> ValidationResult) list"
  resultsChan :: "ValidationResult list"

text \<open>
  What the Go scheduler decides. \<open>Start t t0\<close>: at the instant \<open>t\<close> the loop of \<^verbatim>\<open>main\<close>
  takes its next URL, acquires the semaphore and creates the goroutine, which calls
  \<^verbatim>\<open>validateFeed\<close> at the instant \<open>t0\<close>. \<open>Finish i t\<close>: at the instant \<open>t\<close> the \<open>i\<close>-th goroutine
  in flight, whose \<^verbatim>\<open>validateFeed\<close> has returned, sends its result and ends.
\<close>

datatype choice = Start nat nat | Finish nat nat

text \<open>
  One step; \<open>None\<close> when the step cannot happen in this state (no URL left, the semaphore
  full, a goroutine whose \<^verbatim>\<open>validateFeed\<close> has not returned yet, an instant in the past).
  When \<^verbatim>\<open>Acquire\<close> returns an error the loop goes on to the next URL (\<^verbatim>\<open>continue\<close>) and no
  goroutine is created for this one.
\<close>

fun step :: "nat \<Rightarrow> world \<Rightarrow> choice \<Rightarrow> dispatcher \<Rightarrow> dispatcher option" where
  "step cap w (Start t t0) s =
     (case pending s of
        [] \<Rightarrow> None
      | url # rest \<Rightarrow>
          if t < clock s \<or> t0 < t then None
          else
            (case sem_Acquire Background cap (length (running s)) of
               None \<Rightarrow> None
             | Some (Inl e) \<Rightarrow> Some (s\<lparr>clock := t, pending := rest\<rparr>)
             | Some (Inr _) \<Rightarrow>
                 (case validateFeed w url t0 of
                    (result, fin, tr) \<Rightarrow>
                      Some (s\<lparr>clock := t, pending := rest,
                              running := running s @ [(fin, result)]\<rparr>))))"
| "step cap w (Finish i t) s =
     (if i < length (running s) \<and> clock s \<le> t \<and> fst (running s ! i) \<le> t
      then Some (s\<lparr>clock := t,
                   running := take i (running s) @ drop (Suc i) (running s),
                   resultsChan := resultsChan s @ [snd (running s ! i)]\<rparr>)
      else None)"

fun run :: "nat \<Rightarrow> world \<Rightarrow> choice list \<Rightarrow> dispatcher \<Rightarrow> dispatcher option" where
  "run cap w [] s = Some s"
| "run cap w (c # cs) s =
     (case step cap w c s of None \<Rightarrow> None | Some s' \<Rightarrow> run cap w cs s')"

definition init :: "string list \<Rightarrow> nat \<Rightarrow> dispatcher" where
  "init urls t = \<lparr>clock = t, pending = urls, running = [], resultsChan = []\<rparr>"

text \<open>
  The wait group is at zero and the loop is over: the channel is closed, and the \<^verbatim>\<open>range\<close>
  loop of \<^verbatim>\<open>main\<close> ends with every result that was sent.
\<close>

definition finished :: "dispatcher \<Rightarrow> bool" where
  "finished s = (pending s = [] \<and> running s = [])"

text \<open>
  The slice \<^verbatim>\<open>results\<close> of \<^verbatim>\<open>main\<close> for the URLs \<open>urls\<close>, the semaphore size \<open>cap\<close> and the
  scheduler's decisions \<open>sched\<close>, from the instant \<open>t\<close>; \<open>None\<close> when the decisions are not a
  complete run.
\<close>

definition dispatch ::
  "nat \<Rightarrow> world \<Rightarrow> string list \<Rightarrow> nat \<Rightarrow> choice list \<Rightarrow> ValidationResult list option" where
  "dispatch cap w urls t sched =
     (case run cap w sched (init urls t) of
        None \<Rightarrow> None
      | Some s \<Rightarrow> if finished s then Some (resultsChan s) else None)"

text \<open>The counters of the report and the \<^verbatim>\<open>switch\<close> that counts one result.\<close>

record summary =
  valid :: nat
  invalid :: nat
  transient :: nat
  warnings :: nat



text \<open>
  The schedule that runs one validation after the other, each goroutine starting as soon as
  the one before has ended and ending as soon as its \<^verbatim>\<open>validateFeed\<close> returns. A semaphore
  of any positive size admits it.
\<close>

fun sequential :: "world \<Rightarrow> string list \<Rightarrow> nat \<Rightarrow> choice list" where
  "sequential w [] t = []"
| "sequential w (url # rest) t =
     (let fin = max t (fst (snd (validateFeed w url t)))
      in Start t t # Finish 0 fin # sequential w rest fin)"

subsection \<open>Example worlds\<close>

text \<open>
  Concrete inputs, on which the theorems below are evaluated. The instant \<open>november1\<close> is
  2026-11-01 00:00:00 UTC and \<open>may1\<close> is 2026-05-01 00:00:00 UTC, six calendar months and 184
  days earlier; \<open>minus184days\<close> is \<^verbatim>\<open>AddDate(0, -6, 0)\<close> on the instants of 1 November (UTC).
\<close>

definition Day :: nat where
  "Day = 86400 * Second"

definition november1 :: nat where
  "november1 = 63929088000 * Second"

definition may1 :: nat where
  "may1 = 63913190400 * Second"

definition minus184days :: "nat \<Rightarrow> nat" where
  "minus184days t = t - 184 * Day"

text \<open>A request answered after \<open>l\<close> nanoseconds with status \<open>c\<close> and a body that can be read.\<close>

definition reply :: "nat \<Rightarrow> int \<Rightarrow> attempt" where
  "reply l c = \<lparr>latency = l, outcome = Inr \<lparr>StatusCode = c, Body = Inr ''<rss></rss>''\<rparr>\<rparr>"

text \<open>A request that fails after \<open>l\<close> nanoseconds with the transport error \<open>e\<close>.\<close>

definition failure :: "nat \<Rightarrow> string \<Rightarrow> attempt" where
  "failure l e = \<lparr>latency = l, outcome = Inl e\<rparr>"

text \<open>
  A response of status 200 whose body breaks off while it is read, and the server that sends
  it after a second.
\<close>

definition broken_body :: attempt where
  "broken_body =
     \<lparr>latency = Second, outcome = Inr \<lparr>StatusCode = 200, Body = Inl ''unexpected EOF''\<rparr>\<rparr>"

text \<open>The same answer to every request.\<close>

definition always :: "attempt \<Rightarrow> nat \<Rightarrow> attempt" where
  "always a k = a"

text \<open>Status 503 on the first two requests and 200 from the third on, each after a second.\<close>

definition ok_on_third :: "nat \<Rightarrow> attempt" where
  "ok_on_third k = (if k < 3 then reply Second 503 else reply Second 200)"

text \<open>
  A world in which every URL is well formed, the \<open>k\<close>-th request to any URL meets \<open>net k\<close>
  and the parser returns \<open>parsed\<close>.
\<close>

definition example_world :: "(nat \<Rightarrow> attempt) \<Rightarrow> (string + Feed) \<Rightarrow> world" where
  "example_world net parsed =
     \<lparr>NewRequest = (\<lambda>u. None), network = (\<lambda>u. net), Parse = (\<lambda>b. parsed),
      sixMonthsBefore = minus184days\<rparr>"

text \<open>A feed updated the day before \<open>november1\<close>, and a feed with one item and no timestamp.\<close>

definition fresh_feed :: Feed where
  "fresh_feed = \<lparr>UpdatedParsed = Some (november1 - Day), Items = [\<lparr>PublishedParsed = None\<rparr>]\<rparr>"

definition untimed_feed :: Feed where
  "untimed_feed = \<lparr>UpdatedParsed = None, Items = [\<lparr>PublishedParsed = None\<rparr>]\<rparr>"

text \<open>
  A server that does not answer the first request within 40 seconds and answers every later
  one within a second.
\<close>

definition stalls_once :: "nat \<Rightarrow> attempt" where
  "stalls_once k = (if k = 1 then reply (40 * Second) 200 else reply Second 200)"

text \<open>
  A name that does not resolve, for a URL whose query holds the words \<^verbatim>\<open>context canceled\<close>.
\<close>

definition unresolved_url :: string where
  "unresolved_url = ''http://a.invalid/?q=context canceled''"

definition no_such_host :: string where
  "no_such_host = urlError unresolved_url ''dial tcp: lookup a.invalid: no such host''"

text \<open>
  Two feeds: the first never answers, the second answers within a second with a feed
  updated ten seconds after \<open>may1\<close>. The calendar is a parameter: \<open>minus184days\<close>, or
  \<open>at_may1\<close>, for which six months before any instant is \<open>may1\<close>.
\<close>

definition slow_url :: string where
  "slow_url = ''https://slow.example/feed''"

definition edge_url :: string where
  "edge_url = ''https://edge.example/feed''"

definition edge_feed :: Feed where
  "edge_feed = \<lparr>UpdatedParsed = Some (may1 + 10 * Second), Items = [\<lparr>PublishedParsed = None\<rparr>]\<rparr>"


definition two_feeds :: "(nat \<Rightarrow> nat) \<Rightarrow> world" where
  "two_feeds calendar =
     \<lparr>NewRequest = (\<lambda>u. None),
      network = (\<lambda>u k. if u = slow_url then reply (40 * Second) 200 else reply Second 200),
      Parse = (\<lambda>b. Inr edge_feed),
      sixMonthsBefore = calendar\<rparr>"

text \<open>
  Two schedules for these two feeds, from \<open>november1\<close>, with no delay that the semaphore
  does not force: both goroutines created at once, and one after the other.
\<close>

definition both_at_once :: "choice list" where
  "both_at_once =
     [Start november1 november1, Start november1 november1,
      Finish 1 (november1 + Second), Finish 0 (november1 + 33 * Second)]"


text \<open>The results of the two feeds: the first timed out, the second without and with the warning.\<close>

definition slow_result :: ValidationResult where
  "slow_result = mkResult slow_url ''transient'' ''Request timed out after 30 seconds''"

definition edge_result :: "string \<Rightarrow> ValidationResult" where
  "edge_result message =
     \<lparr>URL = edge_url, Status = ''valid'', Message = message, ItemCount = 1,
      LastUpdate = may1 + 10 * Second\<rparr>"

text \<open>
  What the proofs about the dispatcher count: the results sent, in flight and still to come,
  each seen through \<open>f\<close> (a result) or \<open>g\<close> (a URL); and the steps that are left.
\<close>

definition accounted :: "(ValidationResult \<Rightarrow> 'a) \<Rightarrow> (string \<Rightarrow> 'a) \<Rightarrow> dispatcher \<Rightarrow> 'a multiset" where
  "accounted f g s =
     mset (map f (resultsChan s)) + mset (map (\<lambda>(fin, r). f r) (running s))
       + mset (map g (pending s))"

definition remaining :: "dispatcher \<Rightarrow> nat" where
  "remaining s = 2 * length (pending s) + length (running s)"

section \<open>Properties\<close>

subsection \<open>Strings and numbers\<close>

lemma itoa_404: "itoa 404 = ''404''"
  by code_simp

lemma itoa_503: "itoa 503 = ''503''"
  by code_simp

lemma itoa_30: "itoa 30 = ''30''"
  by code_simp

lemma TrimSpace_padded:
  "TrimSpace '' https://example.org/feed  '' = ''https://example.org/feed''"
  by (simp add: TrimSpace_def asciiSpace_def space2_def space3_def)

lemma TrimSpace_example: "TrimSpace ''https://example.org/feed'' = ''https://example.org/feed''"
  by (simp add: TrimSpace_def asciiSpace_def space2_def space3_def)

lemma itoa_maxRetries: "itoa (int maxRetries) = ''3''"
  by code_simp

lemma itoa_timeoutSeconds: "itoa (int timeoutSeconds) = ''30''"
  by code_simp

lemma Contains_sublist: "Contains s sub = sublist sub s"
  by (induction s) (simp_all add: sublist_Cons_right)

lemma Contains_deadlineExceeded: "Contains (deadlineExceeded u) ''context deadline exceeded''"
proof -
  have "deadlineExceeded u =
          (''Get '' @ [CHR 0x22] @ u @ [CHR 0x22] @ '': '') @ ''context deadline exceeded'' @ []"
    by (simp add: deadlineExceeded_def urlError_def)
  then show ?thesis
    unfolding Contains_sublist by (simp only: sublist_appendI)
qed

subsection \<open>One request and one iteration of the loop\<close>

lemma client_Do_in_time:
  "now + latency (network w u k) < deadline \<Longrightarrow>
     client_Do w u deadline k now = (now + latency (network w u k), outcome (network w u k))"
  by (simp add: client_Do_def Let_def)

lemma client_Do_late:
  "deadline \<le> now + latency (network w u k) \<Longrightarrow>
     client_Do w u deadline k now = (max now deadline, Inl (deadlineExceeded u))"
  by (simp add: client_Do_def Let_def)

text \<open>
  The iterations that go on to the next attempt are stated with the next state named, so that
  they apply to numerals as they stand.
\<close>

lemma retry_loop_error_retry:
  "attempt < maxRetries \<Longrightarrow> client_Do w u deadline attempt now = (now1, Inl e) \<Longrightarrow>
   attempt' = attempt + 1 \<Longrightarrow> backoff' = backoff * 2 \<Longrightarrow> now' = now1 + backoff * Second \<Longrightarrow>
   tr' = tr @ [Fetch attempt now deadline, Sleep (backoff * Second)] \<Longrightarrow>
   retry_loop w u deadline attempt backoff now resp err tr =
     retry_loop w u deadline attempt' backoff' now' None (Some e) tr'"
  by (subst retry_loop.simps) simp

lemma retry_loop_error_last:
  "attempt = maxRetries \<Longrightarrow> client_Do w u deadline attempt now = (now1, Inl e) \<Longrightarrow>
   retry_loop w u deadline attempt backoff now resp err tr =
     (Break None (Some e), now1, tr @ [Fetch attempt now deadline])"
  by (subst retry_loop.simps) simp

lemma retry_loop_client_error:
  "attempt \<le> maxRetries \<Longrightarrow> client_Do w u deadline attempt now = (now1, Inr r) \<Longrightarrow>
   400 \<le> StatusCode r \<Longrightarrow> StatusCode r < 500 \<Longrightarrow> StatusCode r \<noteq> 429 \<Longrightarrow>
   retry_loop w u deadline attempt backoff now resp err tr =
     (Return (mkResult u ''invalid'' (''HTTP status '' @ itoa (StatusCode r))), now1,
      tr @ [Fetch attempt now deadline])"
  by (subst retry_loop.simps) auto

lemma retry_loop_status_retry:
  "attempt < maxRetries \<Longrightarrow> client_Do w u deadline attempt now = (now1, Inr r) \<Longrightarrow>
   StatusCode r = 429 \<or> 500 \<le> StatusCode r \<or> StatusCode r < 400 \<and> StatusCode r \<noteq> 200 \<Longrightarrow>
   attempt' = attempt + 1 \<Longrightarrow> backoff' = backoff * 2 \<Longrightarrow> now' = now1 + backoff * Second \<Longrightarrow>
   tr' = tr @ [Fetch attempt now deadline, Sleep (backoff * Second)] \<Longrightarrow>
   retry_loop w u deadline attempt backoff now resp err tr =
     retry_loop w u deadline attempt' backoff' now' (Some r) None tr'"
  by (subst retry_loop.simps) auto

lemma retry_loop_status_last:
  "attempt = maxRetries \<Longrightarrow> client_Do w u deadline attempt now = (now1, Inr r) \<Longrightarrow>
   StatusCode r = 429 \<or> 500 \<le> StatusCode r \<or> StatusCode r < 400 \<and> StatusCode r \<noteq> 200 \<Longrightarrow>
   retry_loop w u deadline attempt backoff now resp err tr =
     (Break (Some r) None, now1, tr @ [Fetch attempt now deadline])"
  by (subst retry_loop.simps) auto

lemma retry_loop_ok:
  "attempt \<le> maxRetries \<Longrightarrow> client_Do w u deadline attempt now = (now1, Inr r) \<Longrightarrow>
   StatusCode r = 200 \<Longrightarrow>
   retry_loop w u deadline attempt backoff now resp err tr =
     (Break (Some r) None, now1, tr @ [Fetch attempt now deadline])"
  by (subst retry_loop.simps) auto


lemma Status_classify: "Status (classify w u now feed) = ''valid''"
  by (simp add: classify_def Let_def)

lemma URL_classify: "URL (classify w u now feed) = u"
  by (simp add: classify_def Let_def)

text \<open>The loop adds requests and sleeps to the events, never a call of the parser.\<close>

lemma retry_loop_no_ParseFeed:
  "retry_loop w u deadline attempt backoff now resp err tr = (x, now', tr') \<Longrightarrow>
   ParseFeed \<notin> set tr \<Longrightarrow> ParseFeed \<notin> set tr'"
proof (induction w u deadline attempt backoff now resp err tr rule: retry_loop.induct)
  case (1 w u deadline attempt backoff now resp err tr)
  show ?case
    using "1.prems" "1.IH"
    by (subst (asm) retry_loop.simps) (auto simp: Let_def split: if_splits prod.splits sum.splits)
qed

subsection \<open>Whole runs of the loop\<close>

text \<open>A first request answered in time with status 200.\<close>

lemma retry_loop_first_ok:
  assumes "outcome (network w u 1) = Inr r"
    and "StatusCode r = 200"
    and "latency (network w u 1) < timeoutSeconds * Second"
    and "d = t0 + timeoutSeconds * Second"
  shows "retry_loop w u d 1 1 t0 None None [] =
           (Break (Some r) None, t0 + latency (network w u 1), [Fetch 1 t0 d])"
proof -
  have "client_Do w u d 1 t0 = (t0 + latency (network w u 1), Inr r)"
    using assms by (simp add: client_Do_in_time)
  from retry_loop_ok [OF _ this, of 1 None None "[]"] assms(2)
  show ?thesis
    by (simp add: maxRetries_def)
qed

text \<open>
  A first request that has no answer when the deadline passes: the two later requests start
  after the deadline of the one context and fail at once.
\<close>

lemma retry_loop_stalled:
  assumes stall: "timeoutSeconds * Second \<le> latency (network w u 1)"
    and d: "d = t0 + timeoutSeconds * Second"
  shows "retry_loop w u d 1 1 t0 None None [] =
           (Break None (Some (deadlineExceeded u)), d + 3 * Second,
            [Fetch 1 t0 d, Sleep Second, Fetch 2 (d + Second) d, Sleep (2 * Second),
             Fetch 3 (d + 3 * Second) d])"
proof -
  have do1: "client_Do w u d 1 t0 = (d, Inl (deadlineExceeded u))"
    using stall d by (simp add: client_Do_late)
  have do2: "client_Do w u d 2 (d + Second) = (d + Second, Inl (deadlineExceeded u))"
    by (simp add: client_Do_late)
  have do3: "client_Do w u d 3 (d + 3 * Second) = (d + 3 * Second, Inl (deadlineExceeded u))"
    by (simp add: client_Do_late)
  have "retry_loop w u d 1 1 t0 None None [] =
          retry_loop w u d 2 2 (d + Second) None (Some (deadlineExceeded u))
            [Fetch 1 t0 d, Sleep Second]"
    by (rule retry_loop_error_retry [OF _ do1]) (simp_all add: maxRetries_def)
  also have "\<dots> = retry_loop w u d 3 4 (d + 3 * Second) None (Some (deadlineExceeded u))
                     [Fetch 1 t0 d, Sleep Second, Fetch 2 (d + Second) d, Sleep (2 * Second)]"
    by (rule retry_loop_error_retry [OF _ do2]) (simp_all add: maxRetries_def)
  also have "\<dots> = (Break None (Some (deadlineExceeded u)), d + 3 * Second,
                     [Fetch 1 t0 d, Sleep Second, Fetch 2 (d + Second) d, Sleep (2 * Second)]
                     @ [Fetch 3 (d + 3 * Second) d])"
    by (rule retry_loop_error_last [OF _ do3]) (simp add: maxRetries_def)
  finally show ?thesis
    by simp
qed

text \<open>Three transport errors that come in time.\<close>

lemma retry_loop_three_errors:
  assumes err: "outcome (network w u 1) = Inl e1" "outcome (network w u 2) = Inl e2"
      "outcome (network w u 3) = Inl e3"
    and in_time: "latency (network w u 1) + Second + latency (network w u 2) + 2 * Second
        + latency (network w u 3) < timeoutSeconds * Second"
    and d: "d = t0 + timeoutSeconds * Second"
  shows "retry_loop w u d 1 1 t0 None None [] =
           (Break None (Some e3),
            t0 + latency (network w u 1) + Second + latency (network w u 2) + 2 * Second
              + latency (network w u 3),
            [Fetch 1 t0 d, Sleep Second,
             Fetch 2 (t0 + latency (network w u 1) + Second) d, Sleep (2 * Second),
             Fetch 3 (t0 + latency (network w u 1) + Second + latency (network w u 2)
                        + 2 * Second) d])"
proof -
  let ?l1 = "latency (network w u 1)"
  let ?l2 = "latency (network w u 2)"
  let ?l3 = "latency (network w u 3)"
  let ?t2 = "t0 + ?l1 + Second"
  let ?t3 = "?t2 + ?l2 + 2 * Second"
  have do1: "client_Do w u d 1 t0 = (t0 + ?l1, Inl e1)"
    using in_time err(1) d by (simp add: client_Do_in_time)
  have do2: "client_Do w u d 2 ?t2 = (?t2 + ?l2, Inl e2)"
    using in_time err(2) d by (simp add: client_Do_in_time)
  have do3: "client_Do w u d 3 ?t3 = (?t3 + ?l3, Inl e3)"
    using in_time err(3) d by (simp add: client_Do_in_time)
  have "retry_loop w u d 1 1 t0 None None [] =
          retry_loop w u d 2 2 ?t2 None (Some e1) [Fetch 1 t0 d, Sleep Second]"
    by (rule retry_loop_error_retry [OF _ do1]) (simp_all add: maxRetries_def)
  also have "\<dots> = retry_loop w u d 3 4 ?t3 None (Some e2)
                     [Fetch 1 t0 d, Sleep Second, Fetch 2 ?t2 d, Sleep (2 * Second)]"
    by (rule retry_loop_error_retry [OF _ do2]) (simp_all add: maxRetries_def)
  also have "\<dots> = (Break None (Some e3), ?t3 + ?l3,
                     [Fetch 1 t0 d, Sleep Second, Fetch 2 ?t2 d, Sleep (2 * Second)]
                     @ [Fetch 3 ?t3 d])"
    by (rule retry_loop_error_last [OF _ do3]) (simp add: maxRetries_def)
  finally show ?thesis
    by simp
qed

text \<open>A run whose loop is left by \<^verbatim>\<open>break\<close>.\<close>

lemma validateFeed_Break:
  "NewRequest w (TrimSpace url) = None \<Longrightarrow>
   retry_loop w (TrimSpace url) (t0 + timeoutSeconds * Second) 1 1 t0 None None []
     = (Break resp err, now, tr) \<Longrightarrow>
   validateFeed w url t0 = after_loop w (TrimSpace url) resp err now tr"
  by (simp add: validateFeed_def Let_def)

lemma TrimSpace_unresolved_url: "TrimSpace unresolved_url = unresolved_url"
  by (simp add: TrimSpace_def asciiSpace_def space2_def space3_def unresolved_url_def)

lemma Contains_no_such_host: "Contains no_such_host ''context canceled''"
  by (simp add: no_such_host_def urlError_def unresolved_url_def)

subsection \<open>Client errors\<close>

text \<open>
  C4. When the first request is answered in time with a status in \<open>[400, 500)\<close> other than 429,
  \<^verbatim>\<open>validateFeed\<close> returns at once: the result is \<open>invalid\<close> with the message
  \<^verbatim>\<open>HTTP status N\<close>, and its events are that one request, with no sleep.
\<close>

theorem client_error_not_retried:
  assumes req: "NewRequest w (TrimSpace url) = None"
    and resp: "outcome (network w (TrimSpace url) 1) = Inr r"
    and in_time: "latency (network w (TrimSpace url) 1) < timeoutSeconds * Second"
    and code: "400 \<le> StatusCode r" "StatusCode r < 500" "StatusCode r \<noteq> 429"
  shows "validateFeed w url t0 =
           (mkResult (TrimSpace url) ''invalid'' (''HTTP status '' @ itoa (StatusCode r)),
            t0 + latency (network w (TrimSpace url) 1),
            [Fetch 1 t0 (t0 + timeoutSeconds * Second)])"
proof -
  let ?u = "TrimSpace url"
  let ?d = "t0 + timeoutSeconds * Second"
  have "client_Do w ?u ?d 1 t0 = (t0 + latency (network w ?u 1), Inr r)"
    using in_time resp by (simp add: client_Do_in_time)
  then have "retry_loop w ?u ?d 1 1 t0 None None [] =
      (Return (mkResult ?u ''invalid'' (''HTTP status '' @ itoa (StatusCode r))),
       t0 + latency (network w ?u 1), [] @ [Fetch 1 t0 ?d])"
    using code by (intro retry_loop_client_error) (simp_all add: maxRetries_def)
  then show ?thesis
    using req by (simp add: validateFeed_def Let_def)
qed

theorem client_error_not_retried_witness:
  "validateFeed (example_world (always (reply (2 * Second) 404)) (Inr fresh_feed))
     '' https://example.org/feed  '' november1 =
     (mkResult ''https://example.org/feed'' ''invalid'' ''HTTP status 404'',
      november1 + 2 * Second,
      [Fetch 1 november1 (november1 + 30 * Second)])"
  using client_error_not_retried
    [of "example_world (always (reply (2 * Second) 404)) (Inr fresh_feed)"
        "'' https://example.org/feed  ''" "\<lparr>StatusCode = 404, Body = Inr ''<rss></rss>''\<rparr>"
        november1]
  by (simp add: TrimSpace_padded example_world_def always_def reply_def timeoutSeconds_def
      Second_def itoa_404)

subsection \<open>Retryable statuses\<close>

text \<open>
  C5. When all three requests are answered in time with status 429 or a status of 500 or
  more, \<^verbatim>\<open>validateFeed\<close> makes exactly three requests, sleeping between them, and returns
  \<open>transient\<close> with the message \<^verbatim>\<open>Failed after 3 attempts, last status: K\<close>, \<open>K\<close> being the status
  of the third answer.
\<close>

theorem retryable_status_exhausts_attempts:
  assumes req: "NewRequest w (TrimSpace url) = None"
    and resp: "outcome (network w (TrimSpace url) 1) = Inr r1"
      "outcome (network w (TrimSpace url) 2) = Inr r2"
      "outcome (network w (TrimSpace url) 3) = Inr r3"
    and code: "StatusCode r1 = 429 \<or> 500 \<le> StatusCode r1"
      "StatusCode r2 = 429 \<or> 500 \<le> StatusCode r2"
      "StatusCode r3 = 429 \<or> 500 \<le> StatusCode r3"
    and in_time: "latency (network w (TrimSpace url) 1) + Second
        + latency (network w (TrimSpace url) 2) + 2 * Second
        + latency (network w (TrimSpace url) 3) < timeoutSeconds * Second"
  shows "validateFeed w url t0 =
           (mkResult (TrimSpace url) ''transient''
              (''Failed after 3 attempts, last status: '' @ itoa (StatusCode r3)),
            t0 + latency (network w (TrimSpace url) 1) + Second
              + latency (network w (TrimSpace url) 2) + 2 * Second
              + latency (network w (TrimSpace url) 3),
            [Fetch 1 t0 (t0 + timeoutSeconds * Second),
             Sleep Second,
             Fetch 2 (t0 + latency (network w (TrimSpace url) 1) + Second)
               (t0 + timeoutSeconds * Second),
             Sleep (2 * Second),
             Fetch 3 (t0 + latency (network w (TrimSpace url) 1) + Second
                        + latency (network w (TrimSpace url) 2) + 2 * Second)
               (t0 + timeoutSeconds * Second)])"
proof -
  let ?u = "TrimSpace url"
  let ?d = "t0 + timeoutSeconds * Second"
  let ?l1 = "latency (network w ?u 1)"
  let ?l2 = "latency (network w ?u 2)"
  let ?l3 = "latency (network w ?u 3)"
  let ?t2 = "t0 + ?l1 + Second"
  let ?t3 = "?t2 + ?l2 + 2 * Second"
  have do1: "client_Do w ?u ?d 1 t0 = (t0 + ?l1, Inr r1)"
    using in_time resp(1) by (simp add: client_Do_in_time)
  have do2: "client_Do w ?u ?d 2 ?t2 = (?t2 + ?l2, Inr r2)"
    using in_time resp(2) by (simp add: client_Do_in_time)
  have do3: "client_Do w ?u ?d 3 ?t3 = (?t3 + ?l3, Inr r3)"
    using in_time resp(3) by (simp add: client_Do_in_time)
  have "retry_loop w ?u ?d 1 1 t0 None None [] =
          retry_loop w ?u ?d 2 2 ?t2 (Some r1) None [Fetch 1 t0 ?d, Sleep Second]"
    by (rule retry_loop_status_retry [OF _ do1]) (use code(1) in \<open>auto simp: maxRetries_def\<close>)
  also have "\<dots> = retry_loop w ?u ?d 3 4 ?t3 (Some r2) None
                     [Fetch 1 t0 ?d, Sleep Second, Fetch 2 ?t2 ?d, Sleep (2 * Second)]"
    by (rule retry_loop_status_retry [OF _ do2]) (use code(2) in \<open>auto simp: maxRetries_def\<close>)
  also have "\<dots> = (Break (Some r3) None, ?t3 + ?l3,
                     [Fetch 1 t0 ?d, Sleep Second, Fetch 2 ?t2 ?d, Sleep (2 * Second)]
                     @ [Fetch 3 ?t3 ?d])"
    by (rule retry_loop_status_last [OF _ do3]) (use code(3) in \<open>auto simp: maxRetries_def\<close>)
  finally have loop: "retry_loop w ?u ?d 1 1 t0 None None [] =
      (Break (Some r3) None, ?t3 + ?l3,
       [Fetch 1 t0 ?d, Sleep Second, Fetch 2 ?t2 ?d, Sleep (2 * Second), Fetch 3 ?t3 ?d])"
    by simp
  have "StatusCode r3 \<noteq> 200"
    using code(3) by auto
  then show ?thesis
    using req loop
    by (simp add: validateFeed_def Let_def after_loop_def failedAfter_def itoa_maxRetries)
qed

theorem retryable_status_exhausts_attempts_witness:
  "validateFeed (example_world (always (reply Second 503)) (Inr fresh_feed))
     ''https://example.org/feed'' november1 =
     (mkResult ''https://example.org/feed'' ''transient''
        ''Failed after 3 attempts, last status: 503'',
      november1 + 6 * Second,
      [Fetch 1 november1 (november1 + 30 * Second), Sleep Second,
       Fetch 2 (november1 + 2 * Second) (november1 + 30 * Second), Sleep (2 * Second),
       Fetch 3 (november1 + 5 * Second) (november1 + 30 * Second)])"
  using retryable_status_exhausts_attempts
    [of "example_world (always (reply Second 503)) (Inr fresh_feed)"
        "''https://example.org/feed''" "\<lparr>StatusCode = 503, Body = Inr ''<rss></rss>''\<rparr>"
        "\<lparr>StatusCode = 503, Body = Inr ''<rss></rss>''\<rparr>"
        "\<lparr>StatusCode = 503, Body = Inr ''<rss></rss>''\<rparr>" november1]
  by (simp add: TrimSpace_example example_world_def always_def reply_def timeoutSeconds_def
      Second_def itoa_503)

text \<open>
  C7. When the first two requests are answered with status 503 and the third with status
  200, all in time, there is no fourth request; the sleeps are of 1 and then 2 seconds, so
  they do not decrease; the body is read and parsed, and when it decodes the result is the
  classification of the feed, whose status is \<open>valid\<close>.
\<close>

theorem success_on_third_attempt:
  assumes req: "NewRequest w (TrimSpace url) = None"
    and resp: "outcome (network w (TrimSpace url) 1) = Inr r1"
      "outcome (network w (TrimSpace url) 2) = Inr r2"
      "outcome (network w (TrimSpace url) 3) = Inr r3"
    and code: "StatusCode r1 = 503" "StatusCode r2 = 503" "StatusCode r3 = 200"
    and in_time: "latency (network w (TrimSpace url) 1) + Second
        + latency (network w (TrimSpace url) 2) + 2 * Second
        + latency (network w (TrimSpace url) 3) < timeoutSeconds * Second"
    and body: "Body r3 = Inr bodyBytes"
    and decoded: "Parse w bodyBytes = Inr feed"
  shows "snd (snd (validateFeed w url t0)) =
           [Fetch 1 t0 (t0 + timeoutSeconds * Second),
            Sleep (1 * Second),
            Fetch 2 (t0 + latency (network w (TrimSpace url) 1) + Second)
              (t0 + timeoutSeconds * Second),
            Sleep (2 * Second),
            Fetch 3 (t0 + latency (network w (TrimSpace url) 1) + Second
                       + latency (network w (TrimSpace url) 2) + 2 * Second)
              (t0 + timeoutSeconds * Second),
            ReadAll, ParseFeed]
         \<and> sleeps (snd (snd (validateFeed w url t0))) = [2 ^ 0 * Second, 2 ^ 1 * Second]
         \<and> sorted (sleeps (snd (snd (validateFeed w url t0))))
         \<and> fst (validateFeed w url t0) =
             classify w (TrimSpace url)
               (t0 + latency (network w (TrimSpace url) 1) + Second
                  + latency (network w (TrimSpace url) 2) + 2 * Second
                  + latency (network w (TrimSpace url) 3)) feed
         \<and> Status (fst (validateFeed w url t0)) = ''valid''"
proof -
  let ?u = "TrimSpace url"
  let ?d = "t0 + timeoutSeconds * Second"
  let ?l1 = "latency (network w ?u 1)"
  let ?l2 = "latency (network w ?u 2)"
  let ?l3 = "latency (network w ?u 3)"
  let ?t2 = "t0 + ?l1 + Second"
  let ?t3 = "?t2 + ?l2 + 2 * Second"
  have do1: "client_Do w ?u ?d 1 t0 = (t0 + ?l1, Inr r1)"
    using in_time resp(1) by (simp add: client_Do_in_time)
  have do2: "client_Do w ?u ?d 2 ?t2 = (?t2 + ?l2, Inr r2)"
    using in_time resp(2) by (simp add: client_Do_in_time)
  have do3: "client_Do w ?u ?d 3 ?t3 = (?t3 + ?l3, Inr r3)"
    using in_time resp(3) by (simp add: client_Do_in_time)
  have "retry_loop w ?u ?d 1 1 t0 None None [] =
          retry_loop w ?u ?d 2 2 ?t2 (Some r1) None [Fetch 1 t0 ?d, Sleep Second]"
    by (rule retry_loop_status_retry [OF _ do1]) (use code(1) in \<open>auto simp: maxRetries_def\<close>)
  also have "\<dots> = retry_loop w ?u ?d 3 4 ?t3 (Some r2) None
                     [Fetch 1 t0 ?d, Sleep Second, Fetch 2 ?t2 ?d, Sleep (2 * Second)]"
    by (rule retry_loop_status_retry [OF _ do2]) (use code(2) in \<open>auto simp: maxRetries_def\<close>)
  also have "\<dots> = (Break (Some r3) None, ?t3 + ?l3,
                     [Fetch 1 t0 ?d, Sleep Second, Fetch 2 ?t2 ?d, Sleep (2 * Second)]
                     @ [Fetch 3 ?t3 ?d])"
    by (rule retry_loop_ok [OF _ do3]) (use code(3) in \<open>auto simp: maxRetries_def\<close>)
  finally have loop: "retry_loop w ?u ?d 1 1 t0 None None [] =
      (Break (Some r3) None, ?t3 + ?l3,
       [Fetch 1 t0 ?d, Sleep Second, Fetch 2 ?t2 ?d, Sleep (2 * Second), Fetch 3 ?t3 ?d])"
    by simp
  show ?thesis
    using req loop code(3) body decoded
    by (simp add: validateFeed_def Let_def after_loop_def Status_classify Second_def)
qed

theorem success_on_third_attempt_witness:
  "snd (snd (validateFeed (example_world ok_on_third (Inr fresh_feed))
       ''https://example.org/feed'' november1)) =
     [Fetch 1 november1 (november1 + 30 * Second), Sleep (1 * Second),
      Fetch 2 (november1 + 2 * Second) (november1 + 30 * Second), Sleep (2 * Second),
      Fetch 3 (november1 + 5 * Second) (november1 + 30 * Second), ReadAll, ParseFeed]
   \<and> Status (fst (validateFeed (example_world ok_on_third (Inr fresh_feed))
       ''https://example.org/feed'' november1)) = ''valid''"
proof -
  let ?w = "example_world ok_on_third (Inr fresh_feed)"
  let ?u = "''https://example.org/feed''"
  let ?r = "\<lparr>StatusCode = 503, Body = Inr ''<rss></rss>''\<rparr>"
  let ?r3 = "\<lparr>StatusCode = 200, Body = Inr ''<rss></rss>''\<rparr>"
  have "snd (snd (validateFeed ?w ?u november1)) =
           [Fetch 1 november1 (november1 + timeoutSeconds * Second),
            Sleep (1 * Second),
            Fetch 2 (november1 + latency (network ?w (TrimSpace ?u) 1) + Second)
              (november1 + timeoutSeconds * Second),
            Sleep (2 * Second),
            Fetch 3 (november1 + latency (network ?w (TrimSpace ?u) 1) + Second
                       + latency (network ?w (TrimSpace ?u) 2) + 2 * Second)
              (november1 + timeoutSeconds * Second),
            ReadAll, ParseFeed]
         \<and> sleeps (snd (snd (validateFeed ?w ?u november1))) = [2 ^ 0 * Second, 2 ^ 1 * Second]
         \<and> sorted (sleeps (snd (snd (validateFeed ?w ?u november1))))
         \<and> fst (validateFeed ?w ?u november1) =
             classify ?w (TrimSpace ?u)
               (november1 + latency (network ?w (TrimSpace ?u) 1) + Second
                  + latency (network ?w (TrimSpace ?u) 2) + 2 * Second
                  + latency (network ?w (TrimSpace ?u) 3)) fresh_feed
         \<and> Status (fst (validateFeed ?w ?u november1)) = ''valid''"
  proof (rule success_on_third_attempt [where ?r1.0 = ?r and ?r2.0 = ?r and ?r3.0 = ?r3
          and bodyBytes = "''<rss></rss>''"])
    show "NewRequest ?w (TrimSpace ?u) = None" "Parse ?w ''<rss></rss>'' = Inr fresh_feed"
      by (simp_all add: example_world_def)
    show "outcome (network ?w (TrimSpace ?u) 1) = Inr ?r"
      "outcome (network ?w (TrimSpace ?u) 2) = Inr ?r"
      "outcome (network ?w (TrimSpace ?u) 3) = Inr ?r3"
      by (simp_all add: example_world_def ok_on_third_def reply_def)
    show "latency (network ?w (TrimSpace ?u) 1) + Second
        + latency (network ?w (TrimSpace ?u) 2) + 2 * Second
        + latency (network ?w (TrimSpace ?u) 3) < timeoutSeconds * Second"
      by (simp add: example_world_def ok_on_third_def reply_def timeoutSeconds_def Second_def)
  qed simp_all
  then have tr: "snd (snd (validateFeed ?w ?u november1)) =
           [Fetch 1 november1 (november1 + timeoutSeconds * Second),
            Sleep (1 * Second),
            Fetch 2 (november1 + latency (network ?w (TrimSpace ?u) 1) + Second)
              (november1 + timeoutSeconds * Second),
            Sleep (2 * Second),
            Fetch 3 (november1 + latency (network ?w (TrimSpace ?u) 1) + Second
                       + latency (network ?w (TrimSpace ?u) 2) + 2 * Second)
              (november1 + timeoutSeconds * Second),
            ReadAll, ParseFeed]"
    and st: "Status (fst (validateFeed ?w ?u november1)) = ''valid''"
    by blast+
  show ?thesis
    unfolding tr st
    by (simp add: example_world_def ok_on_third_def reply_def timeoutSeconds_def)
qed

subsection \<open>Transport errors\<close>

text \<open>
  Where the check for a timeout finds what it looks for. When the first request has no
  answer within the timeout (so that every request fails on the deadline), the result is
  \<open>transient\<close> with a message that names the configured timeout. When all three requests fail
  in time with a transport error and the text of the last one holds neither of the two
  phrases the check searches for, the result is \<open>transient\<close> with that text as its message.
\<close>

lemma transport_failure_messages:
  assumes req: "NewRequest w (TrimSpace url) = None"
  shows "(timeoutSeconds * Second \<le> latency (network w (TrimSpace url) 1) \<longrightarrow>
            fst (validateFeed w url t0) =
              mkResult (TrimSpace url) ''transient''
                (''Request timed out after '' @ itoa (int timeoutSeconds) @ '' seconds''))
       \<and> (outcome (network w (TrimSpace url) 1) = Inl e1
            \<and> outcome (network w (TrimSpace url) 2) = Inl e2
            \<and> outcome (network w (TrimSpace url) 3) = Inl e3
            \<and> latency (network w (TrimSpace url) 1) + Second
                + latency (network w (TrimSpace url) 2) + 2 * Second
                + latency (network w (TrimSpace url) 3) < timeoutSeconds * Second
            \<and> \<not> Contains e3 ''context canceled''
            \<and> \<not> Contains e3 ''context deadline exceeded'' \<longrightarrow>
            fst (validateFeed w url t0) = mkResult (TrimSpace url) ''transient'' e3)"
proof (intro conjI impI)
  assume "timeoutSeconds * Second \<le> latency (network w (TrimSpace url) 1)"
  from retry_loop_stalled [OF this refl, of t0]
  show "fst (validateFeed w url t0) =
          mkResult (TrimSpace url) ''transient''
            (''Request timed out after '' @ itoa (int timeoutSeconds) @ '' seconds'')"
    using req by (simp add: validateFeed_def Let_def after_loop_def Contains_deadlineExceeded)
next
  assume h: "outcome (network w (TrimSpace url) 1) = Inl e1
      \<and> outcome (network w (TrimSpace url) 2) = Inl e2
      \<and> outcome (network w (TrimSpace url) 3) = Inl e3
      \<and> latency (network w (TrimSpace url) 1) + Second
          + latency (network w (TrimSpace url) 2) + 2 * Second
          + latency (network w (TrimSpace url) 3) < timeoutSeconds * Second
      \<and> \<not> Contains e3 ''context canceled''
      \<and> \<not> Contains e3 ''context deadline exceeded''"
  then have "retry_loop w (TrimSpace url) (t0 + timeoutSeconds * Second) 1 1 t0 None None [] =
      (Break None (Some e3),
       t0 + latency (network w (TrimSpace url) 1) + Second
         + latency (network w (TrimSpace url) 2) + 2 * Second
         + latency (network w (TrimSpace url) 3),
       [Fetch 1 t0 (t0 + timeoutSeconds * Second), Sleep Second,
        Fetch 2 (t0 + latency (network w (TrimSpace url) 1) + Second)
          (t0 + timeoutSeconds * Second),
        Sleep (2 * Second),
        Fetch 3 (t0 + latency (network w (TrimSpace url) 1) + Second
                   + latency (network w (TrimSpace url) 2) + 2 * Second)
          (t0 + timeoutSeconds * Second)])"
    by (intro retry_loop_three_errors) simp_all
  then show "fst (validateFeed w url t0) = mkResult (TrimSpace url) ''transient'' e3"
    using req h by (simp add: validateFeed_def Let_def after_loop_def)
qed

lemma transport_failure_messages_example:
  "fst (validateFeed (example_world stalls_once (Inr fresh_feed))
          ''https://example.org/feed'' november1) =
     mkResult ''https://example.org/feed'' ''transient'' ''Request timed out after 30 seconds''
   \<and> fst (validateFeed
            (example_world (always (failure Second ''dial tcp: connection refused''))
               (Inr fresh_feed))
            ''https://example.org/feed'' november1) =
     mkResult ''https://example.org/feed'' ''transient'' ''dial tcp: connection refused''"
proof
  show "fst (validateFeed (example_world stalls_once (Inr fresh_feed))
          ''https://example.org/feed'' november1) =
     mkResult ''https://example.org/feed'' ''transient'' ''Request timed out after 30 seconds''"
    using transport_failure_messages
      [of "example_world stalls_once (Inr fresh_feed)" "''https://example.org/feed''" november1]
    by (simp add: TrimSpace_example example_world_def stalls_once_def reply_def
        itoa_30 timeoutSeconds_def)
  show "fst (validateFeed
            (example_world (always (failure Second ''dial tcp: connection refused''))
               (Inr fresh_feed))
            ''https://example.org/feed'' november1) =
     mkResult ''https://example.org/feed'' ''transient'' ''dial tcp: connection refused''"
    using transport_failure_messages
      [where w = "example_world (always (failure Second ''dial tcp: connection refused''))
             (Inr fresh_feed)"
         and url = "''https://example.org/feed''" and ?e1.0 = "''dial tcp: connection refused''"
         and ?e2.0 = "''dial tcp: connection refused''"
         and ?e3.0 = "''dial tcp: connection refused''" and ?t0.0 = november1]
    by (simp add: TrimSpace_example example_world_def always_def failure_def timeoutSeconds_def
        Second_def)
qed

text \<open>
  C6 does not hold of the code. A transport error that is no timeout is to give \<open>transient\<close>
  with its raw text as the message. The check for a timeout searches the text of the error
  for \<^verbatim>\<open>context canceled\<close> and \<^verbatim>\<open>context deadline exceeded\<close>, and that text holds the URL of the
  request: a name that does not resolve, three times and each time within a second, for a
  URL whose query holds the words \<^verbatim>\<open>context canceled\<close>, is reported with the message of a
  timeout after 30 seconds, six seconds after the call, and not with its own text.
\<close>

theorem url_text_taken_for_timeout:
  "validateFeed (example_world (always (failure Second no_such_host)) (Inr fresh_feed))
     unresolved_url november1 =
     (mkResult unresolved_url ''transient'' ''Request timed out after 30 seconds'',
      november1 + 6 * Second,
      [Fetch 1 november1 (november1 + 30 * Second), Sleep Second,
       Fetch 2 (november1 + 2 * Second) (november1 + 30 * Second), Sleep (2 * Second),
       Fetch 3 (november1 + 5 * Second) (november1 + 30 * Second)])
   \<and> outcome (always (failure Second no_such_host) 1) = Inl no_such_host
   \<and> outcome (always (failure Second no_such_host) 2) = Inl no_such_host
   \<and> outcome (always (failure Second no_such_host) 3) = Inl no_such_host
   \<and> no_such_host \<noteq> ''Request timed out after 30 seconds''"
proof -
  let ?w = "example_world (always (failure Second no_such_host)) (Inr fresh_feed)"
  let ?u = "TrimSpace unresolved_url"
  let ?d = "november1 + timeoutSeconds * Second"
  let ?tr = "[Fetch 1 november1 ?d, Sleep Second,
             Fetch 2 (november1 + latency (network ?w ?u 1) + Second) ?d, Sleep (2 * Second),
             Fetch 3 (november1 + latency (network ?w ?u 1) + Second
                        + latency (network ?w ?u 2) + 2 * Second) ?d]"
  let ?end = "november1 + latency (network ?w ?u 1) + Second + latency (network ?w ?u 2)
              + 2 * Second + latency (network ?w ?u 3)"
  have "retry_loop ?w ?u ?d 1 1 november1 None None [] =
           (Break None (Some no_such_host), ?end, ?tr)"
    by (rule retry_loop_three_errors)
      (simp_all add: example_world_def always_def failure_def timeoutSeconds_def Second_def)
  then have "validateFeed ?w unresolved_url november1 =
      after_loop ?w ?u None (Some no_such_host) ?end ?tr"
    by (intro validateFeed_Break) (simp_all add: example_world_def)
  also have "\<dots> =
     (mkResult unresolved_url ''transient'' ''Request timed out after 30 seconds'',
      november1 + 6 * Second,
      [Fetch 1 november1 (november1 + 30 * Second), Sleep Second,
       Fetch 2 (november1 + 2 * Second) (november1 + 30 * Second), Sleep (2 * Second),
       Fetch 3 (november1 + 5 * Second) (november1 + 30 * Second)])"
    by (simp add: after_loop_def Contains_no_such_host itoa_timeoutSeconds
        TrimSpace_unresolved_url)
      (simp add: example_world_def always_def failure_def timeoutSeconds_def)
  finally have "validateFeed ?w unresolved_url november1 =
     (mkResult unresolved_url ''transient'' ''Request timed out after 30 seconds'',
      november1 + 6 * Second,
      [Fetch 1 november1 (november1 + 30 * Second), Sleep Second,
       Fetch 2 (november1 + 2 * Second) (november1 + 30 * Second), Sleep (2 * Second),
       Fetch 3 (november1 + 5 * Second) (november1 + 30 * Second)])" .
  moreover have "no_such_host \<noteq> ''Request timed out after 30 seconds''"
    by (simp add: no_such_host_def urlError_def)
  moreover have "outcome (always (failure Second no_such_host) k) = Inl no_such_host" for k
    by (simp add: always_def failure_def)
  ultimately show ?thesis
    by blast
qed

subsection \<open>After a response of status 200\<close>

text \<open>
  C8. When the loop ends with a response of status 200 whose body is read and the parser
  fails on it, the result is \<open>invalid\<close>; the message is \<^verbatim>\<open>Not a valid feed format\<close> when the
  parser's error text contains \<^verbatim>\<open>EOF\<close> or \<^verbatim>\<open>no XML\<close>, and the parser's error text otherwise.
\<close>

theorem decoder_failure_is_invalid:
  assumes req: "NewRequest w (TrimSpace url) = None"
    and fetched: "retry_loop w (TrimSpace url) (t0 + timeoutSeconds * Second) 1 1 t0 None None []
        = (Break (Some r) None, now, tr)"
    and code: "StatusCode r = 200"
    and body: "Body r = Inr bodyBytes"
    and failed: "Parse w bodyBytes = Inl parseErr"
  shows "fst (validateFeed w url t0) =
           mkResult (TrimSpace url) ''invalid''
             (if Contains parseErr ''EOF'' \<or> Contains parseErr ''no XML''
              then ''Not a valid feed format'' else parseErr)"
  using assms by (simp add: validateFeed_def Let_def after_loop_def)

theorem decoder_failure_is_invalid_witness:
  "fst (validateFeed
          (example_world (always (reply Second 200))
             (Inl ''XML syntax error on line 1: unexpected EOF''))
          ''https://example.org/feed'' november1) =
     mkResult ''https://example.org/feed'' ''invalid'' ''Not a valid feed format''
   \<and> fst (validateFeed
          (example_world (always (reply Second 200)) (Inl ''Failed to detect feed type''))
          ''https://example.org/feed'' november1) =
     mkResult ''https://example.org/feed'' ''invalid'' ''Failed to detect feed type''"
proof
  let ?u = "''https://example.org/feed''"
  let ?r = "\<lparr>StatusCode = 200, Body = Inr ''<rss></rss>''\<rparr>"
  let ?tr = "[Fetch 1 november1 (november1 + timeoutSeconds * Second)]"
  let ?w = "example_world (always (reply Second 200))
              (Inl ''XML syntax error on line 1: unexpected EOF'')"
  have "retry_loop ?w ?u (november1 + timeoutSeconds * Second) 1 1 november1 None None [] =
          (Break (Some ?r) None, november1 + latency (network ?w ?u 1), ?tr)"
    by (rule retry_loop_first_ok)
      (simp_all add: example_world_def always_def reply_def timeoutSeconds_def Second_def)
  then have "retry_loop ?w (TrimSpace ?u) (november1 + timeoutSeconds * Second) 1 1 november1
      None None [] = (Break (Some ?r) None, november1 + latency (network ?w ?u 1), ?tr)"
    by (simp only: TrimSpace_example)
  from decoder_failure_is_invalid [OF _ this, of "''<rss></rss>''"
      "''XML syntax error on line 1: unexpected EOF''"]
  show "fst (validateFeed ?w ?u november1) =
          mkResult ''https://example.org/feed'' ''invalid'' ''Not a valid feed format''"
    by (simp add: TrimSpace_example example_world_def)
next
  let ?u = "''https://example.org/feed''"
  let ?r = "\<lparr>StatusCode = 200, Body = Inr ''<rss></rss>''\<rparr>"
  let ?tr = "[Fetch 1 november1 (november1 + timeoutSeconds * Second)]"
  let ?w = "example_world (always (reply Second 200)) (Inl ''Failed to detect feed type'')"
  have "retry_loop ?w ?u (november1 + timeoutSeconds * Second) 1 1 november1 None None [] =
          (Break (Some ?r) None, november1 + latency (network ?w ?u 1), ?tr)"
    by (rule retry_loop_first_ok)
      (simp_all add: example_world_def always_def reply_def timeoutSeconds_def Second_def)
  then have "retry_loop ?w (TrimSpace ?u) (november1 + timeoutSeconds * Second) 1 1 november1
      None None [] = (Break (Some ?r) None, november1 + latency (network ?w ?u 1), ?tr)"
    by (simp only: TrimSpace_example)
  from decoder_failure_is_invalid [OF _ this, of "''<rss></rss>''"
      "''Failed to detect feed type''"]
  show "fst (validateFeed ?w ?u november1) =
          mkResult ''https://example.org/feed'' ''invalid'' ''Failed to detect feed type''"
    by (simp add: TrimSpace_example example_world_def)
qed

text \<open>
  C10. When the loop ends with a response of status 200 whose body cannot be read, the
  result is \<open>transient\<close> with the message \<^verbatim>\<open>Error reading response: \<close> followed by the text of
  the read error, and the parser is not called.
\<close>

theorem body_read_failure_is_transient:
  assumes req: "NewRequest w (TrimSpace url) = None"
    and fetched: "retry_loop w (TrimSpace url) (t0 + timeoutSeconds * Second) 1 1 t0 None None []
        = (Break (Some r) None, now, tr)"
    and code: "StatusCode r = 200"
    and body: "Body r = Inl e"
  shows "fst (validateFeed w url t0) =
           mkResult (TrimSpace url) ''transient'' (''Error reading response: '' @ e)
         \<and> ParseFeed \<notin> set (snd (snd (validateFeed w url t0)))"
proof -
  have "ParseFeed \<notin> set tr"
    using retry_loop_no_ParseFeed [OF fetched] by simp
  then show ?thesis
    using assms by (simp add: validateFeed_def Let_def after_loop_def)
qed

theorem body_read_failure_is_transient_witness:
  "fst (validateFeed (example_world (always broken_body) (Inr fresh_feed))
          ''https://example.org/feed'' november1) =
     mkResult ''https://example.org/feed'' ''transient''
       ''Error reading response: unexpected EOF''
   \<and> ParseFeed \<notin> set (snd (snd (validateFeed
         (example_world (always broken_body) (Inr fresh_feed))
         ''https://example.org/feed'' november1)))"
proof -
  let ?u = "''https://example.org/feed''"
  let ?r = "\<lparr>StatusCode = 200, Body = Inl ''unexpected EOF''\<rparr>"
  let ?tr = "[Fetch 1 november1 (november1 + timeoutSeconds * Second)]"
  let ?w = "example_world (always broken_body) (Inr fresh_feed)"
  have "retry_loop ?w ?u (november1 + timeoutSeconds * Second) 1 1 november1 None None [] =
          (Break (Some ?r) None, november1 + latency (network ?w ?u 1), ?tr)"
    by (rule retry_loop_first_ok)
      (simp_all add: example_world_def always_def broken_body_def timeoutSeconds_def Second_def)
  then have "retry_loop ?w (TrimSpace ?u) (november1 + timeoutSeconds * Second) 1 1 november1
      None None [] = (Break (Some ?r) None, november1 + latency (network ?w ?u 1), ?tr)"
    by (simp only: TrimSpace_example)
  from body_read_failure_is_transient [OF _ this, of "''unexpected EOF''"]
  show ?thesis
    by (simp add: TrimSpace_example example_world_def)
qed

subsection \<open>The deadline and the staleness check\<close>

text \<open>
  C2 does not hold of the code. The context and its deadline are made once, before the
  loop: when the first request has no answer within 30 seconds, the second request starts
  31 seconds after the call with a deadline that passed a second before, and fails at
  once, although the server would have answered it within a second with status 200.
\<close>

theorem deadline_shared_by_all_attempts:
  "validateFeed (example_world stalls_once (Inr fresh_feed)) ''https://example.org/feed''
     november1 =
     (mkResult ''https://example.org/feed'' ''transient'' ''Request timed out after 30 seconds'',
      november1 + 33 * Second,
      [Fetch 1 november1 (november1 + 30 * Second), Sleep Second,
       Fetch 2 (november1 + 31 * Second) (november1 + 30 * Second), Sleep (2 * Second),
       Fetch 3 (november1 + 33 * Second) (november1 + 30 * Second)])
   \<and> stalls_once 2 = reply Second 200"
proof -
  let ?w = "example_world stalls_once (Inr fresh_feed)"
  let ?u = "''https://example.org/feed''"
  let ?d = "november1 + timeoutSeconds * Second"
  have "timeoutSeconds * Second \<le> latency (network ?w (TrimSpace ?u) 1)"
    by (simp add: example_world_def stalls_once_def reply_def timeoutSeconds_def)
  from retry_loop_stalled [OF this refl, of november1]
  have "validateFeed ?w ?u november1 =
          after_loop ?w (TrimSpace ?u) None (Some (deadlineExceeded (TrimSpace ?u)))
            (?d + 3 * Second)
            [Fetch 1 november1 ?d, Sleep Second, Fetch 2 (?d + Second) ?d, Sleep (2 * Second),
             Fetch 3 (?d + 3 * Second) ?d]"
    by (intro validateFeed_Break) (simp_all add: example_world_def)
  also have "\<dots> =
     (mkResult ''https://example.org/feed'' ''transient'' ''Request timed out after 30 seconds'',
      november1 + 33 * Second,
      [Fetch 1 november1 (november1 + 30 * Second), Sleep Second,
       Fetch 2 (november1 + 31 * Second) (november1 + 30 * Second), Sleep (2 * Second),
       Fetch 3 (november1 + 33 * Second) (november1 + 30 * Second)])"
    by (simp add: after_loop_def Contains_deadlineExceeded itoa_timeoutSeconds
        TrimSpace_example) (simp add: timeoutSeconds_def)
  finally show ?thesis
    by (simp add: stalls_once_def)
qed

text \<open>
  C3 does not hold of the code. For a feed with one item and no timestamp at all,
  \<^verbatim>\<open>LastUpdate\<close> keeps its zero value, which is compared with the instant six months ago
  like any other: the result carries the staleness warning.
\<close>

theorem zero_timestamp_is_compared:
  "fst (validateFeed (example_world (always (reply Second 200)) (Inr untimed_feed))
          ''https://example.org/feed'' november1) =
     \<lparr>URL = ''https://example.org/feed'', Status = ''valid'',
      Message = ''Warning: Feed hasn't been updated in over 6 months'',
      ItemCount = 1, LastUpdate = 0\<rparr>"
proof -
  let ?w = "example_world (always (reply Second 200)) (Inr untimed_feed)"
  let ?u = "''https://example.org/feed''"
  let ?r = "\<lparr>StatusCode = 200, Body = Inr ''<rss></rss>''\<rparr>"
  let ?tr = "[Fetch 1 november1 (november1 + timeoutSeconds * Second)]"
  have "retry_loop ?w (TrimSpace ?u) (november1 + timeoutSeconds * Second) 1 1 november1
          None None [] =
          (Break (Some ?r) None, november1 + latency (network ?w (TrimSpace ?u) 1), ?tr)"
    by (rule retry_loop_first_ok)
      (simp_all add: example_world_def always_def reply_def timeoutSeconds_def Second_def)
  then have "validateFeed ?w ?u november1 =
      after_loop ?w (TrimSpace ?u) (Some ?r) None
        (november1 + latency (network ?w (TrimSpace ?u) 1)) ?tr"
    by (intro validateFeed_Break) (simp_all add: example_world_def)
  also have "\<dots> =
      (classify ?w ?u (november1 + Second) untimed_feed,
       november1 + Second, ?tr @ [ReadAll, ParseFeed])"
    by (simp add: after_loop_def TrimSpace_example)
      (simp add: example_world_def always_def reply_def)
  finally have "fst (validateFeed ?w ?u november1) =
      classify ?w ?u (november1 + Second) untimed_feed"
    by simp
  also have "\<dots> = \<lparr>URL = ''https://example.org/feed'', Status = ''valid'',
      Message = ''Warning: Feed hasn't been updated in over 6 months'',
      ItemCount = 1, LastUpdate = 0\<rparr>"
    by (simp add: example_world_def classify_def lastUpdateOf_def untimed_feed_def
        minus184days_def november1_def Day_def Second_def)
  finally show ?thesis .
qed

subsection \<open>Validations at different instants\<close>









lemma retry_loop_Return_URL:
  "retry_loop w u deadline attempt backoff now resp err tr = (Return r, now', tr') \<Longrightarrow> URL r = u"
proof (induction w u deadline attempt backoff now resp err tr rule: retry_loop.induct)
  case (1 w u deadline attempt backoff now resp err tr)
  show ?case
    using "1.prems" "1.IH"
    by (subst (asm) retry_loop.simps)
      (auto simp: Let_def mkResult_def split: if_splits prod.splits sum.splits)
qed

lemma URL_after_loop: "URL (fst (after_loop w u resp err now tr)) = u"
  by (simp add: after_loop_def mkResult_def failedAfter_def URL_classify
      split: option.splits sum.splits)

lemma URL_validateFeed: "URL (fst (validateFeed w url t)) = TrimSpace url"
proof (cases "NewRequest w (TrimSpace url)")
  case (Some e)
  then show ?thesis
    by (simp add: validateFeed_def Let_def mkResult_def)
next
  case None
  obtain x now tr where
    loop: "retry_loop w (TrimSpace url) (t + timeoutSeconds * Second) 1 1 t None None []
            = (x, now, tr)"
    using prod_cases3 by blast
  show ?thesis
  proof (cases x)
    case (Return r)
    with loop None retry_loop_Return_URL [of w "TrimSpace url"] show ?thesis
      by (simp add: validateFeed_def Let_def)
  next
    case (Break resp err)
    with loop None show ?thesis
      by (simp add: validateFeed_def Let_def URL_after_loop)
  qed
qed

subsection \<open>The dispatcher\<close>

lemma sem_Acquire_Background:
  "sem_Acquire Background n cur = (if cur + 1 \<le> n then Some (Inr ()) else None)"
  by (simp add: sem_Acquire_def)

lemma mset_without_nth:
  "i < length xs \<Longrightarrow> mset (take i xs @ drop (Suc i) xs) + {#xs ! i#} = mset xs"
proof -
  assume "i < length xs"
  then have "xs = take i xs @ xs ! i # drop (Suc i) xs"
    by (rule id_take_nth_drop)
  then have "mset xs = mset (take i xs @ xs ! i # drop (Suc i) xs)"
    by simp
  then show ?thesis
    by simp
qed

lemma step_accounted:
  assumes key: "\<And>u t. f (fst (validateFeed w u t)) = g u"
    and step: "step cap w c s = Some s'"
  shows "accounted f g s' = accounted f g s"
proof (cases c)
  case (Start t t0)
  with step obtain url rest where p: "pending s = url # rest"
    by (cases "pending s") auto
  obtain result fin tr where v: "validateFeed w url t0 = (result, fin, tr)"
    using prod_cases3 by blast
  then have "f result = g url"
    using key [of url t0] by simp
  with step Start p v show ?thesis
    by (auto simp: accounted_def sem_Acquire_Background split: if_splits)
next
  case (Finish i t)
  with step have i: "i < length (running s)"
    and s': "s' = s\<lparr>clock := t,
        running := take i (running s) @ drop (Suc i) (running s),
        resultsChan := resultsChan s @ [snd (running s ! i)]\<rparr>"
    by (auto split: if_splits)
  let ?k = "\<lambda>(fin, r). f r"
  have "mset (map ?k (take i (running s) @ drop (Suc i) (running s))) + {#?k (running s ! i)#}
      = mset (map ?k (running s))"
    using mset_without_nth [of i "map ?k (running s)"] i
    by (simp add: take_map drop_map)
  moreover have "?k (running s ! i) = f (snd (running s ! i))"
    by (simp add: case_prod_unfold)
  ultimately show ?thesis
    unfolding s' accounted_def by (simp add: algebra_simps)
qed

lemma run_accounted:
  assumes key: "\<And>u t. f (fst (validateFeed w u t)) = g u"
  shows "run cap w sched s = Some s' \<Longrightarrow> accounted f g s' = accounted f g s"
proof (induction sched arbitrary: s)
  case Nil
  then show ?case by simp
next
  case (Cons c cs)
  then obtain s1 where "step cap w c s = Some s1" "run cap w cs s1 = Some s'"
    by (auto split: option.splits)
  with Cons.IH [of s1] step_accounted [where f = f and g = g, OF key, of cap c s s1] show ?case
    by simp
qed

lemma dispatch_accounted:
  assumes key: "\<And>u t. f (fst (validateFeed w u t)) = g u"
    and "dispatch cap w urls t sched = Some rs"
  shows "mset (map f rs) = mset (map g urls)"
proof -
  from assms(2) obtain s where r: "run cap w sched (init urls t) = Some s"
    and fin: "finished s" and rs: "rs = resultsChan s"
    by (auto simp: dispatch_def split: option.splits if_splits)
  have "accounted f g s = accounted f g (init urls t)"
    using run_accounted [where f = f and g = g, OF key r] .
  with fin rs show ?thesis
    by (simp add: accounted_def finished_def init_def)
qed

lemma step_remaining: "step cap w c s = Some s' \<Longrightarrow> Suc (remaining s') = remaining s"
proof (cases c)
  case (Start t t0)
  assume "step cap w c s = Some s'"
  with Start show ?thesis
    by (auto simp: remaining_def sem_Acquire_Background split: list.splits if_splits prod.splits)
next
  case (Finish i t)
  assume "step cap w c s = Some s'"
  with Finish show ?thesis
    by (auto simp: remaining_def split: if_splits)
qed

lemma run_remaining: "run cap w sched s = Some s' \<Longrightarrow> length sched + remaining s' = remaining s"
proof (induction sched arbitrary: s)
  case Nil
  then show ?case by simp
next
  case (Cons c cs)
  then obtain s1 where "step cap w c s = Some s1" "run cap w cs s1 = Some s'"
    by (auto split: option.splits)
  with Cons.IH [of s1] step_remaining [of cap w c s s1] show ?case
    by simp
qed

lemma never_stuck:
  assumes "0 < cap" and "\<not> finished s"
  shows "\<exists>c s'. step cap w c s = Some s'"
proof (cases "running s")
  case Nil
  with assms(2) obtain url rest where "pending s = url # rest"
    by (cases "pending s") (auto simp: finished_def)
  with Nil assms(1) have "\<exists>s'. step cap w (Start (clock s) (clock s)) s = Some s'"
    by (auto simp: sem_Acquire_Background split: prod.splits)
  then show ?thesis
    by blast
next
  case (Cons a as)
  then have "\<exists>s'. step cap w (Finish 0 (max (clock s) (fst a))) s = Some s'"
    by simp
  then show ?thesis
    by blast
qed

lemma run_sequential:
  assumes "0 < cap"
  shows "\<exists>t' rs. run cap w (sequential w urls t)
                   \<lparr>clock = t, pending = urls, running = [], resultsChan = c\<rparr>
                 = Some \<lparr>clock = t', pending = [], running = [], resultsChan = rs\<rparr>"
proof (induction urls arbitrary: t c)
  case Nil
  then show ?case by simp
next
  case (Cons url rest)
  obtain result fin tr where v: "validateFeed w url t = (result, fin, tr)"
    using prod_cases3 by blast
  let ?s0 = "\<lparr>clock = t, pending = url # rest, running = [], resultsChan = c\<rparr>"
  let ?s1 = "\<lparr>clock = t, pending = rest, running = [(fin, result)], resultsChan = c\<rparr>"
  let ?s2 = "\<lparr>clock = max t fin, pending = rest, running = [], resultsChan = c @ [result]\<rparr>"
  have 1: "step cap w (Start t t) ?s0 = Some ?s1"
    using assms v by (simp add: sem_Acquire_Background)
  have 2: "step cap w (Finish 0 (max t fin)) ?s1 = Some ?s2"
    by simp
  from Cons.IH [of "max t fin" "c @ [result]"] 1 2 v show ?case
    by (simp add: Let_def)
qed

lemma dispatch_sequential:
  assumes "0 < cap"
  shows "\<exists>rs. dispatch cap w urls t (sequential w urls t) = Some rs"
  using run_sequential [OF assms, of w urls t "[]"]
  by (auto simp: dispatch_def init_def finished_def)










subsection \<open>The two example feeds\<close>

text \<open>
  The runs of the two schedules on the two example feeds, whatever the calendar: the slow
  feed takes 33 seconds, so that under a semaphore of size 1 the second feed is classified
  34 seconds after the start, and one second after the start when both run at once.
\<close>

lemma TrimSpace_slow_url: "TrimSpace slow_url = slow_url"
  by (simp add: TrimSpace_def asciiSpace_def space2_def space3_def slow_url_def)

lemma TrimSpace_edge_url: "TrimSpace edge_url = edge_url"
  by (simp add: TrimSpace_def asciiSpace_def space2_def space3_def edge_url_def)

lemma edge_url_not_slow: "edge_url \<noteq> slow_url"
  by (simp add: edge_url_def slow_url_def)

lemma validateFeed_slow:
  "validateFeed (two_feeds calendar) slow_url t =
     (slow_result, t + 33 * Second,
      [Fetch 1 t (t + 30 * Second), Sleep Second,
       Fetch 2 (t + 31 * Second) (t + 30 * Second), Sleep (2 * Second),
       Fetch 3 (t + 33 * Second) (t + 30 * Second)])"
proof -
  let ?w = "two_feeds calendar"
  let ?u = "TrimSpace slow_url"
  let ?d = "t + timeoutSeconds * Second"
  have "timeoutSeconds * Second \<le> latency (network ?w ?u 1)"
    by (simp add: two_feeds_def TrimSpace_slow_url reply_def timeoutSeconds_def)
  from retry_loop_stalled [OF this refl, of t]
  have "validateFeed ?w slow_url t =
          after_loop ?w ?u None (Some (deadlineExceeded ?u)) (?d + 3 * Second)
            [Fetch 1 t ?d, Sleep Second, Fetch 2 (?d + Second) ?d, Sleep (2 * Second),
             Fetch 3 (?d + 3 * Second) ?d]"
    by (intro validateFeed_Break) (simp_all add: two_feeds_def)
  also have "\<dots> =
     (slow_result, t + 33 * Second,
      [Fetch 1 t (t + 30 * Second), Sleep Second,
       Fetch 2 (t + 31 * Second) (t + 30 * Second), Sleep (2 * Second),
       Fetch 3 (t + 33 * Second) (t + 30 * Second)])"
    by (simp add: after_loop_def Contains_deadlineExceeded itoa_timeoutSeconds
        TrimSpace_slow_url slow_result_def) (simp add: timeoutSeconds_def)
  finally show ?thesis .
qed

lemma validateFeed_edge:
  "validateFeed (two_feeds calendar) edge_url t =
     (classify (two_feeds calendar) edge_url (t + Second) edge_feed, t + Second,
      [Fetch 1 t (t + 30 * Second), ReadAll, ParseFeed])"
proof -
  let ?w = "two_feeds calendar"
  let ?u = "TrimSpace edge_url"
  let ?r = "\<lparr>StatusCode = 200, Body = Inr ''<rss></rss>''\<rparr>"
  let ?tr = "[Fetch 1 t (t + timeoutSeconds * Second)]"
  have "retry_loop ?w ?u (t + timeoutSeconds * Second) 1 1 t None None [] =
          (Break (Some ?r) None, t + latency (network ?w ?u 1), ?tr)"
    by (rule retry_loop_first_ok)
      (simp_all add: two_feeds_def TrimSpace_edge_url edge_url_not_slow reply_def
        timeoutSeconds_def Second_def)
  then have "validateFeed ?w edge_url t =
      after_loop ?w ?u (Some ?r) None (t + latency (network ?w ?u 1)) ?tr"
    by (intro validateFeed_Break) (simp_all add: two_feeds_def)
  also have "\<dots> =
      (classify ?w edge_url (t + Second) edge_feed, t + Second,
       [Fetch 1 t (t + 30 * Second), ReadAll, ParseFeed])"
    by (simp add: after_loop_def TrimSpace_edge_url)
      (simp add: two_feeds_def edge_url_not_slow reply_def timeoutSeconds_def)
  finally show ?thesis .
qed

lemma dispatch_both_at_once:
  "dispatch concurrencyLimit (two_feeds calendar) [slow_url, edge_url] november1 both_at_once =
     Some [classify (two_feeds calendar) edge_url (november1 + Second) edge_feed, slow_result]"
  by (simp add: dispatch_def init_def both_at_once_def sem_Acquire_Background
      concurrencyLimit_def validateFeed_slow validateFeed_edge finished_def)


lemma classify_edge_early:
  "classify (two_feeds minus184days) edge_url (november1 + Second) edge_feed = edge_result []"
  by (simp add: classify_def lastUpdateOf_def edge_feed_def edge_result_def two_feeds_def
      minus184days_def november1_def may1_def Day_def Second_def)



lemma classify_edge_after:
  assumes "november1 + 10 * Second < now"
  shows "classify (two_feeds minus184days) edge_url now edge_feed =
           edge_result ''Warning: Feed hasn't been updated in over 6 months''"
proof -
  have "may1 + 10 * Second < minus184days now"
    using assms by (simp add: minus184days_def november1_def may1_def Day_def Second_def)
  then show ?thesis
    by (simp add: classify_def lastUpdateOf_def edge_feed_def edge_result_def two_feeds_def)
qed

lemma length_four:
  assumes "length xs = 4"
  obtains a b c d where "xs = [a, b, c, d]"
proof -
  from assms obtain a b c d where "xs = [a, b, c, d]"
    by (auto simp: numeral_eq_Suc length_Suc_conv)
  then show ?thesis
    by (rule that)
qed


text \<open>
  With a semaphore of size 1 the second feed cannot start before the first has timed out,
  whatever the scheduler decides: every complete run ends with the warning.
\<close>

lemma one_at_a_time_has_warning:
  assumes "dispatch 1 (two_feeds minus184days) [slow_url, edge_url] november1 sched = Some rs"
  shows "rs = [slow_result, edge_result ''Warning: Feed hasn't been updated in over 6 months'']"
proof -
  let ?w = "two_feeds minus184days"
  from assms obtain s where run: "run 1 ?w sched (init [slow_url, edge_url] november1) = Some s"
    and fin: "finished s" and rs: "rs = resultsChan s"
    by (auto simp: dispatch_def split: option.splits if_splits)
  from run_remaining [OF run] fin have "length sched = 4"
    by (simp add: remaining_def init_def finished_def)
  then obtain c1 c2 c3 c4 where sched: "sched = [c1, c2, c3, c4]"
    by (rule length_four)
  obtain s1 where 1: "step 1 ?w c1 (init [slow_url, edge_url] november1) = Some s1"
    and run1: "run 1 ?w [c2, c3, c4] s1 = Some s"
    using run unfolding sched by (auto split: option.splits)
  from 1 obtain t t0 where s1: "s1 = \<lparr>clock = t, pending = [edge_url],
      running = [(t0 + 33 * Second, slow_result)], resultsChan = []\<rparr>"
    and t: "november1 \<le> t" "t \<le> t0"
    by (cases c1)
      (auto simp: init_def sem_Acquire_Background validateFeed_slow split: if_splits)
  obtain s2 where 2: "step 1 ?w c2 s1 = Some s2" and run2: "run 1 ?w [c3, c4] s2 = Some s"
    using run1 by (auto split: option.splits)
  from 2 obtain t2 where s2: "s2 = \<lparr>clock = t2, pending = [edge_url],
      running = [], resultsChan = [slow_result]\<rparr>"
    and t2: "t0 + 33 * Second \<le> t2"
    unfolding s1 by (cases c2) (auto simp: sem_Acquire_Background split: if_splits)
  obtain s3 where 3: "step 1 ?w c3 s2 = Some s3" and run3: "run 1 ?w [c4] s3 = Some s"
    using run2 by (auto split: option.splits)
  from 3 obtain t3 t3' where s3: "s3 = \<lparr>clock = t3, pending = [],
      running = [(t3' + Second, classify ?w edge_url (t3' + Second) edge_feed)],
      resultsChan = [slow_result]\<rparr>"
    and t3: "t2 \<le> t3" "t3 \<le> t3'"
    unfolding s2
    by (cases c3) (auto simp: sem_Acquire_Background validateFeed_edge split: if_splits)
  have "november1 + 10 * Second < t3' + Second"
    using t t2 t3 by (simp add: Second_def)
  then have stale: "classify ?w edge_url (t3' + Second) edge_feed =
      edge_result ''Warning: Feed hasn't been updated in over 6 months''"
    by (rule classify_edge_after)
  from run3 have "step 1 ?w c4 s3 = Some s"
    by (auto split: option.splits)
  then have "resultsChan s =
      [slow_result, edge_result ''Warning: Feed hasn't been updated in over 6 months'']"
    unfolding s3 stale by (cases c4) (auto split: if_splits)
  with rs show ?thesis
    by simp
qed

subsection \<open>Every URL has its result\<close>

text \<open>
  C1. With a semaphore of a positive size, the dispatcher completes for some schedule, is
  never stuck before it is finished, and takes at most two steps for each URL; and the
  results of every complete run are, by their \<open>URL\<close> field, exactly the trimmed input URLs,
  each as often as it was given.
\<close>

theorem one_result_per_url:
  assumes "0 < cap"
  shows "(\<exists>sched rs. dispatch cap w urls t sched = Some rs)
       \<and> (\<forall>sched s. run cap w sched (init urls t) = Some s \<and> \<not> finished s \<longrightarrow>
            (\<exists>c s'. step cap w c s = Some s'))
       \<and> (\<forall>sched s. run cap w sched (init urls t) = Some s \<longrightarrow> length sched \<le> 2 * length urls)
       \<and> (\<forall>sched rs. dispatch cap w urls t sched = Some rs \<longrightarrow>
            mset (map URL rs) = mset (map TrimSpace urls))"
proof (intro conjI allI impI)
  show "\<exists>sched rs. dispatch cap w urls t sched = Some rs"
    using dispatch_sequential [OF assms] by blast
next
  fix sched s
  assume "run cap w sched (init urls t) = Some s \<and> \<not> finished s"
  then show "\<exists>c s'. step cap w c s = Some s'"
    using never_stuck [OF assms] by blast
next
  fix sched s
  assume "run cap w sched (init urls t) = Some s"
  from run_remaining [OF this] show "length sched \<le> 2 * length urls"
    by (simp add: remaining_def init_def)
next
  fix sched rs
  assume "dispatch cap w urls t sched = Some rs"
  then show "mset (map URL rs) = mset (map TrimSpace urls)"
    by (rule dispatch_accounted [rotated]) (rule URL_validateFeed)
qed

theorem one_result_per_url_witness:
  "0 < concurrencyLimit
   \<and> dispatch concurrencyLimit (two_feeds minus184days) [slow_url, edge_url] november1
       both_at_once = Some [edge_result [], slow_result]
   \<and> mset (map URL [edge_result [], slow_result]) = mset (map TrimSpace [slow_url, edge_url])"
proof -
  have pos: "0 < concurrencyLimit"
    by (simp add: concurrencyLimit_def)
  have run: "dispatch concurrencyLimit (two_feeds minus184days) [slow_url, edge_url] november1
       both_at_once = Some [edge_result [], slow_result]"
    by (simp only: dispatch_both_at_once classify_edge_early)
  from one_result_per_url [OF pos, of "two_feeds minus184days" "[slow_url, edge_url]" november1]
  have "\<forall>sched rs.
          dispatch concurrencyLimit (two_feeds minus184days) [slow_url, edge_url] november1 sched
            = Some rs \<longrightarrow>
          mset (map URL rs) = mset (map TrimSpace [slow_url, edge_url])"
    by (elim conjE)
  with run have "mset (map URL [edge_result [], slow_result]) =
      mset (map TrimSpace [slow_url, edge_url])"
    by blast
  with pos run show ?thesis
    by (intro conjI)
qed

subsection \<open>Concurrency and outcomes\<close>




end
